theory Spec2Isabelle
  imports Main
begin

section \<open>Buienradar camera: the cached, coalesced radar image\<close>

text \<open>
  The development embeds \<^verbatim>\<open>homeassistant/components/buienradar/camera.py\<close>:
  the class \<^verbatim>\<open>BuienradarCam\<close> with its private helpers
  \<^verbatim>\<open>__needs_refresh\<close> and \<^verbatim>\<open>__retrieve_radar_image\<close> and the
  coroutine \<^verbatim>\<open>async_camera_image\<close>.

  Conventions. A \<^verbatim>\<open>datetime\<close> is an \<open>int\<close>, the number of microseconds since the
  epoch; a \<^verbatim>\<open>timedelta\<close> is an \<open>int\<close>, a number of microseconds. The time to live
  \<^verbatim>\<open>_delta\<close> is an integral number of seconds. Both types are bounded in Python, and
  \<^verbatim>\<open>timedelta(seconds=d)\<close> and the addition of line 201 raise
  \<^verbatim>\<open>OverflowError\<close> beyond the bounds; the model raises there too. \<^verbatim>\<open>bytes\<close> is a
  list of octets, each a \<open>nat\<close> below 256. Python's truth test is written out: an \<open>int\<close> is
  true when nonzero, an optional \<^verbatim>\<open>datetime\<close> when it is not \<^verbatim>\<open>None\<close>, an
  optional \<^verbatim>\<open>bytes\<close> or \<^verbatim>\<open>str\<close> when it is neither \<^verbatim>\<open>None\<close> nor empty.
\<close>

subsection \<open>The instance\<close>

type_synonym bytes = "nat list"
type_synonym datetime = int

text \<open>
  The fields of \<^verbatim>\<open>BuienradarCam.__init__\<close> the coroutine reads or writes.
  \<open>dimension\<close> is \<^verbatim>\<open>DEFAULT_DIMENSION\<close> of \<^verbatim>\<open>const.py\<close>, which is a
  parameter here. The condition variable lives in the system state below.
\<close>

record cam =
  dimension :: int
  delta :: int
  country :: string
  radar_timeframe :: int
  last_image :: "bytes option"
  last_modified :: "string option"
  loading :: bool
  deadline :: "datetime option"

definition new_cam :: "int \<Rightarrow> int \<Rightarrow> string \<Rightarrow> int \<Rightarrow> cam" where
  "new_cam dim d ctry tf =
     \<lparr> dimension = dim, delta = d, country = ctry, radar_timeframe = tf,
       last_image = None, last_modified = None, loading = False, deadline = None \<rparr>"

definition truthy_bytes :: "bytes option \<Rightarrow> bool" where
  "truthy_bytes b = (case b of None \<Rightarrow> False | Some xs \<Rightarrow> xs \<noteq> [])"

definition truthy_str :: "string option \<Rightarrow> bool" where
  "truthy_str s = (case s of None \<Rightarrow> False | Some xs \<Rightarrow> xs \<noteq> [])"

subsection \<open>Exceptions and the arithmetic of time\<close>

text \<open>
  The exceptions the code can meet: \<^verbatim>\<open>asyncio.TimeoutError\<close>,
  \<^verbatim>\<open>aiohttp.ClientError\<close> (with its subclasses), \<^verbatim>\<open>OverflowError\<close> and any other.
\<close>

datatype exn = TimeoutError | ClientError | OverflowError | OtherError

text \<open>
  \<^verbatim>\<open>timedelta(seconds=d)\<close> for an integer \<open>d\<close>: the days of the result are
  \<open>d div 86400\<close>, and a magnitude above 999999999 days raises.
\<close>

definition timedelta_seconds :: "int \<Rightarrow> exn + int" where
  "timedelta_seconds d =
     (if \<bar>d div 86400\<bar> > 999999999 then Inl OverflowError else Inr (d * 1000000))"

text \<open>
  \<^verbatim>\<open>datetime.min\<close> is the first microsecond of year 1 and \<^verbatim>\<open>datetime.max\<close> the
  last of year 9999; a sum outside them raises.
\<close>

definition datetime_min :: datetime where
  "datetime_min = - 62135596800000000"

definition datetime_max :: datetime where
  "datetime_max = 253402300799999999"

definition datetime_add :: "datetime \<Rightarrow> int \<Rightarrow> exn + datetime" where
  "datetime_add t us =
     (if datetime_min \<le> t + us \<and> t + us \<le> datetime_max then Inr (t + us)
      else Inl OverflowError)"

text \<open>The right-hand side of line 201, \<^verbatim>\<open>now + timedelta(seconds=self._delta)\<close>.\<close>

definition new_deadline :: "datetime \<Rightarrow> int \<Rightarrow> exn + datetime" where
  "new_deadline now d =
     (case timedelta_seconds d of Inl e \<Rightarrow> Inl e | Inr us \<Rightarrow> datetime_add now us)"

subsection \<open>\<^verbatim>\<open>__needs_refresh\<close>\<close>

text \<open>The second argument is the value \<^verbatim>\<open>dt_util.utcnow()\<close> returns.\<close>

definition needs_refresh :: "cam \<Rightarrow> datetime \<Rightarrow> bool" where
  "needs_refresh c utcnow =
     (if \<not> (delta c \<noteq> 0 \<and> deadline c \<noteq> None \<and> truthy_bytes (last_image c)) then True
      else (case deadline c of None \<Rightarrow> True | Some dl \<Rightarrow> utcnow > dl))"

subsection \<open>\<^verbatim>\<open>__retrieve_radar_image\<close>: the request\<close>

definition radar_timeframe_periods :: "int \<Rightarrow> int" where
  "radar_timeframe_periods minutes =
     (let p = (minutes div 10) + 1
      in if p mod 10 \<noteq> 0 then p + 1 else p)"

text \<open>Decimal formatting of an integer, as an f-string does it.\<close>

definition digit_char :: "nat \<Rightarrow> char" where
  "digit_char d = ''0123456789'' ! (d mod 10)"

function str_nat :: "nat \<Rightarrow> string" where
  "str_nat n = (if n < 10 then [digit_char n] else str_nat (n div 10) @ [digit_char (n mod 10)])"
  by pat_completeness auto
termination
  by (relation "measure (\<lambda>n. n)") auto

declare str_nat.simps [simp del]

definition str_int :: "int \<Rightarrow> string" where
  "str_int i = (if i < 0 then CHR ''-'' # str_nat (nat (- i)) else str_nat (nat i))"

definition url_prefix :: "cam \<Rightarrow> string" where
  "url_prefix c =
     ''https://image.buienradar.nl/2.0/image/animation/RadarMapRain'' @ country c
     @ ''?width='' @ str_int (dimension c) @ ''&height='' @ str_int (dimension c)
     @ ''&renderBackground=True&renderBranding=False&renderText=True&History=0&forecast=''"

definition url :: "cam \<Rightarrow> string" where
  "url c = url_prefix c @ str_int (radar_timeframe_periods (radar_timeframe c))"

record request =
  req_url :: string
  req_timeout :: nat
  req_headers :: "(string \<times> string) list"

definition request_headers :: "cam \<Rightarrow> (string \<times> string) list" where
  "request_headers c =
     (case last_modified c of
        None \<Rightarrow> []
      | Some lm \<Rightarrow> if lm \<noteq> [] then [(''If-Modified-Since'', lm)] else [])"

definition make_request :: "cam \<Rightarrow> request" where
  "make_request c = \<lparr> req_url = url c, req_timeout = 5, req_headers = request_headers c \<rparr>"

subsection \<open>\<^verbatim>\<open>__retrieve_radar_image\<close>: the response\<close>

text \<open>
  What the HTTP client can do: \<^verbatim>\<open>session.get\<close> raises, or yields a response with a
  status and headers; \<^verbatim>\<open>res.read()\<close> raises, or yields the body. Response headers are
  an association list whose keys are in canonical spelling. The \<^verbatim>\<open>except\<close> clause of
  line 157 catches two kinds of exception.
\<close>

fun caught :: "exn \<Rightarrow> bool" where
  "caught TimeoutError = True"
| "caught ClientError = True"
| "caught OverflowError = False"
| "caught OtherError = False"

datatype http_result = GetRaises exn | Response nat "(string \<times> string) list"

datatype read_result = ReadRaises exn | ReadOk bytes

text \<open>How a run of \<^verbatim>\<open>__retrieve_radar_image\<close> ends: it returns a flag or raises.\<close>

datatype retrieved = Returns bool | Raises exn

definition on_exception :: "exn \<Rightarrow> retrieved" where
  "on_exception e = (if caught e then Returns False else Raises e)"

text \<open>
  Lines 143 to 151, from the moment \<^verbatim>\<open>session.get\<close> resumes. \<^verbatim>\<open>raise_for_status\<close>
  raises \<^verbatim>\<open>ClientResponseError\<close>, a \<^verbatim>\<open>ClientError\<close>, for a status of 400 and above.
  The second component is \<open>None\<close> when the coroutine is suspended in \<^verbatim>\<open>res.read()\<close>.
\<close>

definition retrieve_on_response :: "cam \<Rightarrow> http_result \<Rightarrow> cam \<times> retrieved option" where
  "retrieve_on_response c r =
     (case r of
        GetRaises e \<Rightarrow> (c, Some (on_exception e))
      | Response status hdrs \<Rightarrow>
          if status \<ge> 400 then (c, Some (on_exception ClientError))
          else if status = 304 then (c, Some (Returns True))
          else (let lm = map_of hdrs ''Last-Modified''
                in (if truthy_str lm then c\<lparr>last_modified := lm\<rparr> else c, None)))"

text \<open>Lines 153 to 159, from the moment \<^verbatim>\<open>res.read()\<close> resumes.\<close>

definition retrieve_on_body :: "cam \<Rightarrow> read_result \<Rightarrow> cam \<times> retrieved" where
  "retrieve_on_body c rr =
     (case rr of
        ReadRaises e \<Rightarrow> (c, on_exception e)
      | ReadOk b \<Rightarrow> (c\<lparr>last_image := Some b\<rparr>, Returns True))"

subsection \<open>\<^verbatim>\<open>async_camera_image\<close>\<close>

text \<open>How a call of \<^verbatim>\<open>async_camera_image\<close> ends.\<close>

datatype outcome = Returned "bytes option" | Raised exn

text \<open>
  Lines 199 to 203; \<open>now\<close> is the value read on line 197, before the request. When
  line 201 raises, the deadline is not assigned and the exception leaves the call.
\<close>

definition after_retrieve :: "datetime \<Rightarrow> cam \<Rightarrow> retrieved \<Rightarrow> cam \<times> outcome" where
  "after_retrieve now c r =
     (case r of
        Raises e \<Rightarrow> (c, Raised e)
      | Returns was_updated \<Rightarrow>
          if was_updated
          then (case new_deadline now (delta c) of
                  Inl e \<Rightarrow> (c, Raised e)
                | Inr dl \<Rightarrow> (c\<lparr>deadline := Some dl\<rparr>, Returned (last_image c)))
          else (c, Returned (last_image c)))"

subsection \<open>The event loop\<close>

text \<open>
  Tasks of the event loop interleave only where a coroutine suspends: in
  \<^verbatim>\<open>Condition.wait\<close>, in \<^verbatim>\<open>session.get\<close>, in \<^verbatim>\<open>res.read()\<close>, and in
  acquiring a lock that is held. Each call of \<^verbatim>\<open>async_camera_image\<close> has an
  identifier and a program point; the code between two suspension points is one step.
  The lock of the condition is the flag \<open>locked\<close>; a call that finds it held is parked
  at \<open>EnterBlocked\<close>, \<open>Notified\<close> or \<open>FinallyBlocked\<close> and tries again when resumed.
  Two fields only observe: \<open>requests\<close> logs every \<^verbatim>\<open>session.get\<close>, \<open>acquisitions\<close>
  counts the times the lock was taken. An exception raised into a suspended call from
  outside is the result \<open>OtherError\<close> of the client call it is suspended in.
\<close>

type_synonym tid = nat

datatype pc =
    NotStarted
  | EnterBlocked
  | CondWait
  | Notified
  | Fetching datetime
  | Reading datetime
  | FinallyBlocked outcome
  | Done outcome

record sys =
  inst :: cam
  locked :: bool
  tasks :: "tid \<Rightarrow> pc"
  requests :: "request list"
  acquisitions :: nat

definition init_sys :: "cam \<Rightarrow> sys" where
  "init_sys c =
     \<lparr> inst = c, locked = False, tasks = (\<lambda>_. NotStarted), requests = [], acquisitions = 0 \<rparr>"

definition set_pc :: "tid \<Rightarrow> pc \<Rightarrow> sys \<Rightarrow> sys" where
  "set_pc t p s = s\<lparr>tasks := (tasks s)(t := p)\<rparr>"

definition acquire :: "sys \<Rightarrow> sys" where
  "acquire s = s\<lparr>locked := True, acquisitions := acquisitions s + 1\<rparr>"

definition release :: "sys \<Rightarrow> sys" where
  "release s = s\<lparr>locked := False\<rparr>"

definition notify_all :: "sys \<Rightarrow> sys" where
  "notify_all s = s\<lparr>tasks := (\<lambda>t. if tasks s t = CondWait then Notified else tasks s t)\<rparr>"

definition set_loading :: "bool \<Rightarrow> sys \<Rightarrow> sys" where
  "set_loading b s = s\<lparr>inst := (inst s)\<lparr>loading := b\<rparr>\<rparr>"

definition session_get :: "sys \<Rightarrow> sys" where
  "session_get s = s\<lparr>requests := requests s @ [make_request (inst s)]\<rparr>"

text \<open>
  Lines 186 to 198, up to the suspension in \<^verbatim>\<open>session.get\<close>: take the lock, wait on
  the condition when a fetch is in flight, else raise the flag, leave the lock, read the
  clock (\<open>now\<close>) and send the request.
\<close>

definition enter :: "tid \<Rightarrow> datetime \<Rightarrow> sys \<Rightarrow> sys" where
  "enter t now s =
     (if locked s then set_pc t EnterBlocked s
      else let s1 = acquire s
           in if loading (inst s1) then release (set_pc t CondWait s1)
              else set_pc t (Fetching now) (session_get (release (set_loading True s1))))"

text \<open>Lines 182 and 183, then \<open>enter\<close>; \<open>utcnow\<close> is the clock \<^verbatim>\<open>__needs_refresh\<close> reads.\<close>

definition async_camera_image :: "tid \<Rightarrow> datetime \<Rightarrow> datetime \<Rightarrow> sys \<Rightarrow> sys" where
  "async_camera_image t utcnow now s =
     (if \<not> needs_refresh (inst s) utcnow
      then set_pc t (Done (Returned (last_image (inst s)))) s
      else enter t now s)"

text \<open>Lines 190 and 191 after the notification: take the lock again, return the image.\<close>

definition wake :: "tid \<Rightarrow> sys \<Rightarrow> sys" where
  "wake t s =
     (if locked s then s
      else release (set_pc t (Done (Returned (last_image (inst s)))) (acquire s)))"

text \<open>Lines 204 to 208, the \<^verbatim>\<open>finally\<close> block, then the call ends as \<open>out\<close>.\<close>

definition finally_block :: "tid \<Rightarrow> outcome \<Rightarrow> sys \<Rightarrow> sys" where
  "finally_block t out s =
     (if locked s then set_pc t (FinallyBlocked out) s
      else set_pc t (Done out) (release (notify_all (set_loading False (acquire s)))))"

definition finish :: "tid \<Rightarrow> datetime \<Rightarrow> retrieved \<Rightarrow> sys \<Rightarrow> sys" where
  "finish t now r s =
     (case after_retrieve now (inst s) r of (c', out) \<Rightarrow> finally_block t out (s\<lparr>inst := c'\<rparr>))"

datatype event =
    Call tid datetime datetime
  | Resume tid datetime
  | Resp tid http_result
  | Body tid read_result

fun step :: "event \<Rightarrow> sys \<Rightarrow> sys" where
  "step (Call t utcnow now) s =
     (case tasks s t of NotStarted \<Rightarrow> async_camera_image t utcnow now s | _ \<Rightarrow> s)"
| "step (Resume t now) s =
     (case tasks s t of
        EnterBlocked \<Rightarrow> enter t now s
      | Notified \<Rightarrow> wake t s
      | FinallyBlocked out \<Rightarrow> finally_block t out s
      | _ \<Rightarrow> s)"
| "step (Resp t r) s =
     (case tasks s t of
        Fetching now \<Rightarrow>
          (case retrieve_on_response (inst s) r of
             (c', None) \<Rightarrow> set_pc t (Reading now) (s\<lparr>inst := c'\<rparr>)
           | (c', Some rv) \<Rightarrow> finish t now rv (s\<lparr>inst := c'\<rparr>))
      | _ \<Rightarrow> s)"
| "step (Body t rr) s =
     (case tasks s t of
        Reading now \<Rightarrow>
          (case retrieve_on_body (inst s) rr of (c', rv) \<Rightarrow> finish t now rv (s\<lparr>inst := c'\<rparr>))
      | _ \<Rightarrow> s)"

fun run :: "event list \<Rightarrow> sys \<Rightarrow> sys" where
  "run [] s = s"
| "run (e # es) s = run es (step e s)"

subsection \<open>Runs and their invariant\<close>

text \<open>A call holds the flag \<^verbatim>\<open>_loading\<close> while it is suspended in the HTTP client.\<close>

fun fetching :: "pc \<Rightarrow> bool" where
  "fetching (Fetching _) = True"
| "fetching (Reading _) = True"
| "fetching _ = False"

fun blocked :: "pc \<Rightarrow> bool" where
  "blocked EnterBlocked = True"
| "blocked (FinallyBlocked _) = True"
| "blocked _ = False"

text \<open>
  The events by which the client ends the fetch of call \<open>t\<close>: the result of
  \<^verbatim>\<open>session.get\<close> and, when the code goes on to read the body, the result of
  \<^verbatim>\<open>res.read()\<close>.
\<close>

fun reads_body :: "http_result \<Rightarrow> bool" where
  "reads_body (GetRaises e) = False"
| "reads_body (Response status hdrs) = (status < 400 \<and> status \<noteq> 304)"

definition delivery :: "tid \<Rightarrow> http_result \<Rightarrow> read_result \<Rightarrow> event list" where
  "delivery t r rr = (if reads_body r then [Resp t r, Body t rr] else [Resp t r])"

text \<open>A caller is a call identifier with the two clock values its call reads.\<close>

type_synonym caller = "tid \<times> datetime \<times> datetime"

definition call_of :: "caller \<Rightarrow> event" where
  "call_of c = (case c of (t, utcnow, now) \<Rightarrow> Call t utcnow now)"

definition resume_of :: "caller \<Rightarrow> event" where
  "resume_of c = (case c of (t, utcnow, now) \<Rightarrow> Resume t now)"

text \<open>
  What holds between any two steps: the lock is free, no call is parked on it, at most
  one call is in the HTTP client, the flag is up exactly when one is, and calls wait on
  the condition only while the flag is up.
\<close>

definition wf_sys :: "sys \<Rightarrow> bool" where
  "wf_sys s \<longleftrightarrow>
     \<not> locked s
     \<and> (\<forall>t. \<not> blocked (tasks s t))
     \<and> (\<forall>t t'. fetching (tasks s t) \<and> fetching (tasks s t') \<longrightarrow> t = t')
     \<and> (loading (inst s) \<longleftrightarrow> (\<exists>t. fetching (tasks s t)))
     \<and> (\<forall>t. tasks s t = CondWait \<longrightarrow> loading (inst s))"


subsection \<open>Concrete instances and runs\<close>

text \<open>
  An instance for the Netherlands with a time to live of 600 seconds that holds a
  three-byte image, the validator \<^verbatim>\<open>A\<close> and a deadline at 600 seconds; the same with
  a time to live of zero.
\<close>

definition example_cam :: cam where
  "example_cam = (new_cam 700 600 ''NL'' 25)
     \<lparr>last_image := Some [71, 73, 70], last_modified := Some ''A'', deadline := Some 600000000\<rparr>"

definition zero_ttl_cam :: cam where
  "zero_ttl_cam = example_cam\<lparr>delta := 0\<rparr>"

text \<open>The first call on a new instance, answered with status 200 and an empty body.\<close>

definition empty_run :: sys where
  "empty_run = run [Call 0 0 0, Resp 0 (Response 200 []), Body 0 (ReadOk [])]
                 (init_sys (new_cam 700 600 ''NL'' 25))"

text \<open>The first call at time 0, answered with status 200, a validator and three bytes.\<close>

definition fresh_run :: sys where
  "fresh_run = run [Call 0 0 0, Resp 0 (Response 200 [(''Last-Modified'', ''A'')]),
                    Body 0 (ReadOk [71, 73, 70])]
                 (init_sys (new_cam 700 600 ''NL'' 25))"

text \<open>
  A stale instance refreshes; the response has status 200 and the validator \<^verbatim>\<open>B\<close>,
  and reading its body times out.
\<close>

definition torn_run :: sys where
  "torn_run = run [Call 0 700000000 700000000,
                   Resp 0 (Response 200 [(''Last-Modified'', ''B'')]),
                   Body 0 (ReadRaises TimeoutError)]
                (init_sys example_cam)"

text \<open>
  On a new instance the body of the first response is lost to a timeout; the next two
  calls send the validator of that response and are answered with status 304.
\<close>

definition none_run :: sys where
  "none_run = run [Call 0 0 0, Resp 0 (Response 200 [(''Last-Modified'', ''A'')]),
                   Body 0 (ReadRaises TimeoutError),
                   Call 1 1 1, Resp 1 (Response 304 []),
                   Call 2 2 2, Resp 2 (Response 304 [])]
                (init_sys (new_cam 700 600 ''NL'' 25))"

text \<open>The same exchange on an instance whose time to live is a million million seconds.\<close>

definition huge_run :: sys where
  "huge_run = run [Call 0 0 0, Resp 0 (Response 200 []), Body 0 (ReadOk [])]
                (init_sys (new_cam 700 1000000000000 ''NL'' 25))"

text \<open>Three calls on a new instance before the response; then the response; then the waiters.\<close>

definition crowd :: "caller list" where
  "crowd = [(1, 5, 5), (2, 7, 7)]"

definition crowd_waiting :: sys where
  "crowd_waiting = run (Call 0 0 0 # map call_of crowd) (init_sys (new_cam 700 600 ''NL'' 25))"

definition crowd_settled :: sys where
  "crowd_settled =
     run (delivery 0 (Response 200 [(''Last-Modified'', ''A'')]) (ReadOk [71, 73, 70]))
       crowd_waiting"

definition crowd_done :: sys where
  "crowd_done = run (map resume_of crowd) crowd_settled"

text \<open>Two calls on a new instance; the request of the first raises an unexpected exception.\<close>

definition crashed :: sys where
  "crashed = run [Call 0 0 0, Call 1 0 0, Resp 0 (GetRaises OtherError)]
               (init_sys (new_cam 700 600 ''NL'' 25))"

section \<open>Properties\<close>

lemmas step_defs = async_camera_image_def enter_def wake_def finally_block_def finish_def
  set_pc_def acquire_def release_def notify_all_def set_loading_def session_get_def

lemmas fetch_defs = retrieve_on_response_def retrieve_on_body_def after_retrieve_def
  on_exception_def truthy_str_def

lemmas time_defs = new_deadline_def timedelta_seconds_def datetime_add_def datetime_min_def
  datetime_max_def

lemmas eval_defs = step_defs fetch_defs time_defs init_sys_def new_cam_def needs_refresh_def
  truthy_bytes_def Let_def make_request_def request_headers_def

subsection \<open>Steps of a call\<close>

text \<open>When line 201 does not raise, the new deadline is the sum.\<close>

lemma new_deadline_value: "new_deadline now d = Inr dl \<Longrightarrow> dl = now + d * 1000000"
  by (auto simp: time_defs split: if_splits)

lemma make_request_loading [simp]: "make_request (c\<lparr>loading := b\<rparr>) = make_request c"
  by (simp add: make_request_def url_def url_prefix_def request_headers_def)

lemma needs_refresh_loading [simp]:
  "needs_refresh (c\<lparr>loading := b\<rparr>) utcnow = needs_refresh c utcnow"
  by (simp add: needs_refresh_def)

lemma needs_refresh_empty: "last_image c = Some [] \<Longrightarrow> needs_refresh c utcnow"
  by (simp add: needs_refresh_def truthy_bytes_def)

lemma fresh_until_deadline:
  "delta c \<noteq> 0 \<Longrightarrow> deadline c = Some dl \<Longrightarrow> last_image c = Some img \<Longrightarrow> img \<noteq> [] \<Longrightarrow>
   needs_refresh c utcnow \<longleftrightarrow> utcnow > dl"
  by (simp add: needs_refresh_def truthy_bytes_def)

text \<open>A call when no refresh is due, whatever the lock and the flag.\<close>

lemma call_cached:
  "\<not> needs_refresh (inst s) utcnow \<Longrightarrow> tasks s t = NotStarted \<Longrightarrow>
   step (Call t utcnow now) s = set_pc t (Done (Returned (last_image (inst s)))) s"
  by (simp add: async_camera_image_def)

text \<open>A call that finds a refresh due, the lock free and the flag down.\<close>

lemma call_fetches:
  "needs_refresh (inst s) utcnow \<Longrightarrow> \<not> locked s \<Longrightarrow> \<not> loading (inst s) \<Longrightarrow>
   tasks s t = NotStarted \<Longrightarrow>
   step (Call t utcnow now) s =
     s\<lparr>inst := (inst s)\<lparr>loading := True\<rparr>, tasks := (tasks s)(t := Fetching now),
       requests := requests s @ [make_request (inst s)], acquisitions := acquisitions s + 1\<rparr>"
  by (simp add: step_defs Let_def)

text \<open>A call that finds a refresh due, the lock free and the flag up.\<close>

lemma call_waits:
  "needs_refresh (inst s) utcnow \<Longrightarrow> \<not> locked s \<Longrightarrow> loading (inst s) \<Longrightarrow>
   tasks s t = NotStarted \<Longrightarrow>
   step (Call t utcnow now) s =
     s\<lparr>tasks := (tasks s)(t := CondWait), acquisitions := acquisitions s + 1\<rparr>"
  by (simp add: step_defs Let_def)

lemma resp_cases:
  "retrieve_on_response c r = (c', None) \<Longrightarrow> loading c' = loading c"
  "retrieve_on_response c r = (c', Some rv) \<Longrightarrow> c' = c"
  by (auto simp: retrieve_on_response_def Let_def split: http_result.splits if_splits)

lemma finish_eq:
  "finish t now rv s =
     finally_block t (snd (after_retrieve now (inst s) rv))
       (s\<lparr>inst := fst (after_retrieve now (inst s) rv)\<rparr>)"
  by (simp add: finish_def split: prod.splits)

lemma finish_unlocked:
  "\<not> locked s \<Longrightarrow>
   finish t now rv s =
     s\<lparr>inst := (fst (after_retrieve now (inst s) rv))\<lparr>loading := False\<rparr>,
       locked := False,
       tasks := (\<lambda>t'. if t' = t then Done (snd (after_retrieve now (inst s) rv))
                       else if tasks s t' = CondWait then Notified else tasks s t'),
       acquisitions := acquisitions s + 1\<rparr>"
  by (auto simp: finish_def finally_block_def set_pc_def release_def notify_all_def
      set_loading_def acquire_def fun_eq_iff split: prod.splits)

text \<open>What the two successful ends of a fetch leave behind.\<close>

lemma fetch_body_ok:
  assumes "tasks s t = Fetching start" and "\<not> locked s" and "status < 400" and "status \<noteq> 304"
    and "new_deadline start (delta (inst s)) = Inr dl"
  shows "let s' = run [Resp t (Response status hdrs), Body t (ReadOk body)] s
         in \<not> locked s' \<and> \<not> loading (inst s')
            \<and> last_image (inst s') = Some body
            \<and> deadline (inst s') = Some dl
            \<and> delta (inst s') = delta (inst s)
            \<and> tasks s' t = Done (Returned (Some body))
            \<and> requests s' = requests s"
  using assms
  by (cases "truthy_str (map_of hdrs ''Last-Modified'')")
    (simp_all add: step_defs retrieve_on_response_def retrieve_on_body_def
      after_retrieve_def Let_def)

lemma fetch_not_modified:
  assumes "tasks s t = Fetching start" and "\<not> locked s"
    and "new_deadline start (delta (inst s)) = Inr dl"
  shows "let s' = step (Resp t (Response 304 hdrs)) s
         in \<not> locked s' \<and> \<not> loading (inst s')
            \<and> last_image (inst s') = last_image (inst s)
            \<and> last_modified (inst s') = last_modified (inst s)
            \<and> deadline (inst s') = Some dl
            \<and> delta (inst s') = delta (inst s)
            \<and> tasks s' t = Done (Returned (last_image (inst s)))
            \<and> requests s' = requests s"
  using assms by (simp add: step_defs fetch_defs Let_def)


text \<open>The end of a fetch, whatever the client delivers.\<close>

lemma settle:
  assumes "tasks s t = Fetching start" and "\<not> locked s"
  shows "let s' = run (delivery t r rr) s
         in \<not> locked s' \<and> \<not> loading (inst s')
            \<and> (\<exists>out. tasks s' t = Done out)
            \<and> requests s' = requests s
            \<and> (\<forall>t'. t' \<noteq> t \<longrightarrow>
                  tasks s' t' = (if tasks s t' = CondWait then Notified else tasks s t'))"
proof (cases "reads_body r")
  case True
  then obtain status hdrs where r: "r = Response status hdrs" "status < 400" "status \<noteq> 304"
    by (cases r) auto
  obtain c' where c': "retrieve_on_response (inst s) r = (c', None)"
    using r by (simp add: retrieve_on_response_def Let_def)
  obtain c'' rv where rb: "retrieve_on_body c' rr = (c'', rv)"
    by (cases "retrieve_on_body c' rr")
  from assms True c' rb show ?thesis
    by (simp add: delivery_def set_pc_def finish_unlocked Let_def)
next
  case False
  then obtain rv where "retrieve_on_response (inst s) r = (inst s, Some rv)"
    by (cases r) (auto simp: retrieve_on_response_def)
  with assms False show ?thesis
    by (simp add: delivery_def finish_unlocked Let_def)
qed

subsection \<open>The forecast parameter\<close>

text \<open>
  Claim C5. For every number \<open>m\<close> of forecast minutes the period count is
  \<open>p = m div 10 + 1\<close> when \<open>p\<close> is divisible by 10 and \<open>p + 1\<close> otherwise, and the URL
  of every request ends in the decimal form of that count, after \<^verbatim>\<open>forecast=\<close>.
\<close>

theorem forecast_period_mapping:
  "radar_timeframe_periods m =
     (if (m div 10 + 1) mod 10 = 0 then m div 10 + 1 else (m div 10 + 1) + 1)
   \<and> req_url (make_request c)
       = url_prefix c @ str_int (radar_timeframe_periods (radar_timeframe c))"
  by (simp add: radar_timeframe_periods_def Let_def make_request_def url_def)

theorem forecast_period_mapping_witness:
  "radar_timeframe_periods 95 = 10 \<and> radar_timeframe_periods 25 = 4
   \<and> req_url (make_request example_cam) =
      ''https://image.buienradar.nl/2.0/image/animation/RadarMapRainNL?width=700&height=700&renderBackground=True&renderBranding=False&renderText=True&History=0&forecast=4''"
  using forecast_period_mapping [of 95 example_cam] forecast_period_mapping [of 25 example_cam]
  by (simp add: example_cam_def new_cam_def url_prefix_def radar_timeframe_periods_def
      make_request_def url_def) code_simp

text \<open>
  Claim C6, as stated: 10 minutes give 2 periods. The code gives 3, since
  \<open>10 div 10 + 1 = 2\<close> is not divisible by 10 and is bumped.
\<close>

theorem period_examples_counterexample:
  "radar_timeframe_periods 10 \<noteq> 2"
  by (simp add: radar_timeframe_periods_def)

text \<open>
  Claim C6, amended: 10 minutes give 3 periods (2, bumped since 2 is not divisible by
  10) and 25 minutes give 4 periods (3, bumped since 3 is not divisible by 10).
\<close>

theorem period_examples:
  "radar_timeframe_periods 10 = 3 \<and> radar_timeframe_periods 25 = 4"
  by (simp add: radar_timeframe_periods_def)

subsection \<open>The refresh predicate\<close>

text \<open>
  Claim C7, as stated: a refresh is needed exactly when no payload is cached, no
  deadline is set or the clock is past the deadline. With a time to live of zero a
  refresh is needed although a payload is cached, a deadline is set and the clock is
  before it.
\<close>

theorem refresh_predicate_counterexample:
  "needs_refresh zero_ttl_cam 500000000
   \<and> last_image zero_ttl_cam = Some [71, 73, 70]
   \<and> deadline zero_ttl_cam = Some 600000000
   \<and> \<not> (500000000 > (600000000::int))"
  by (simp add: zero_ttl_cam_def example_cam_def new_cam_def needs_refresh_def truthy_bytes_def)

text \<open>
  Claim C7, amended: a refresh is needed exactly when the time to live is zero, or no
  payload or an empty one is cached, or no deadline is set, or the clock is strictly past
  the deadline; when none is needed, a call ends at once with the cached payload, never
  takes the lock and sends no request.
\<close>

theorem refresh_predicate:
  "(needs_refresh c utcnow \<longleftrightarrow>
      delta c = 0 \<or> last_image c = None \<or> last_image c = Some [] \<or> deadline c = None
      \<or> (\<exists>dl. deadline c = Some dl \<and> utcnow > dl))
   \<and> (\<not> needs_refresh (inst s) utcnow \<and> tasks s t = NotStarted \<longrightarrow>
        step (Call t utcnow now) s = set_pc t (Done (Returned (last_image (inst s)))) s
        \<and> acquisitions (step (Call t utcnow now) s) = acquisitions s
        \<and> requests (step (Call t utcnow now) s) = requests s)"
  by (auto simp: needs_refresh_def truthy_bytes_def async_camera_image_def set_pc_def
      split: option.splits)

theorem refresh_predicate_witness:
  "\<not> needs_refresh example_cam 500000000
   \<and> needs_refresh example_cam 600000001
   \<and> tasks (step (Call 0 500000000 500000000) (init_sys example_cam)) 0
       = Done (Returned (Some [71, 73, 70]))
   \<and> acquisitions (step (Call 0 500000000 500000000) (init_sys example_cam)) = 0"
  using refresh_predicate [of example_cam 500000000 "init_sys example_cam" 0 500000000]
    refresh_predicate [of example_cam 600000001 "init_sys example_cam" 0 500000000]
  by (simp add: example_cam_def new_cam_def init_sys_def set_pc_def)

subsection \<open>Time to live\<close>

text \<open>
  Claim C2, as stated: after a successful fetch that started at \<open>T\<close> with a time to live
  \<open>D\<close>, a call at or after \<open>T + D\<close> fetches. A call at \<open>T + D\<close> exactly (here \<open>T = 0\<close>
  and \<open>D\<close> is 600 seconds) returns the cached payload and sends no request.
\<close>

theorem ttl_boundary_counterexample:
  "new_deadline 0 600 = Inr 600000000
   \<and> deadline (inst fresh_run) = Some 600000000
   \<and> tasks (step (Call 1 600000000 600000000) fresh_run) 1
       = Done (Returned (Some [71, 73, 70]))
   \<and> requests (step (Call 1 600000000 600000000) fresh_run) = requests fresh_run"
  by (simp add: fresh_run_def eval_defs)

text \<open>
  Claim C2, amended: let a call find a refresh due and no fetch in flight, start its
  fetch at \<open>T\<close> with an integral time to live \<open>D\<close> other than zero such that \<open>T + D\<close> is
  a \<^verbatim>\<open>datetime\<close> (line 201 does not raise), and let the fetch succeed and leave a
  non-empty payload (status 200 with a non-empty body, or status 304 over a non-empty
  cached payload). Then the deadline is \<open>T + D\<close>; every later call that reads a clock at
  or before \<open>T + D\<close> returns the cached payload and sends no request; every later call
  that reads a clock strictly after \<open>T + D\<close> sends exactly one request.
\<close>

theorem ttl_correctness:
  assumes idle: "\<not> locked s" "\<not> loading (inst s)" "tasks s t = NotStarted"
    and due: "needs_refresh (inst s) u"
    and ttl: "delta (inst s) \<noteq> 0"
    and range: "new_deadline T (delta (inst s)) = Inr dl"
    and ok: "evs = [Resp t (Response status hdrs), Body t (ReadOk body)]
               \<and> status < 400 \<and> status \<noteq> 304 \<and> body \<noteq> []
             \<or> evs = [Resp t (Response 304 hdrs)] \<and> truthy_bytes (last_image (inst s))"
  shows "let s1 = run (Call t u T # evs) s
         in dl = T + delta (inst s) * 1000000
            \<and> deadline (inst s1) = Some dl
            \<and> (\<forall>t' utcnow now. tasks s1 t' = NotStarted \<longrightarrow>
                 (utcnow \<le> dl \<longrightarrow>
                    step (Call t' utcnow now) s1
                      = set_pc t' (Done (Returned (last_image (inst s1)))) s1
                    \<and> requests (step (Call t' utcnow now) s1) = requests s1)
                 \<and> (utcnow > dl \<longrightarrow>
                      tasks (step (Call t' utcnow now) s1) t' = Fetching now
                      \<and> requests (step (Call t' utcnow now) s1)
                          = requests s1 @ [make_request (inst s1)]))"
proof -
  define s0 where "s0 = step (Call t u T) s"
  define s1 where "s1 = run evs s0"
  have s0: "s0 = s\<lparr>inst := (inst s)\<lparr>loading := True\<rparr>, tasks := (tasks s)(t := Fetching T),
       requests := requests s @ [make_request (inst s)], acquisitions := acquisitions s + 1\<rparr>"
    unfolding s0_def using due idle by (rule call_fetches)
  have tf: "tasks s0 t = Fetching T" "\<not> locked s0" "delta (inst s0) = delta (inst s)"
    "last_image (inst s0) = last_image (inst s)"
    using idle by (simp_all add: s0)
  from range tf(3) have range0: "new_deadline T (delta (inst s0)) = Inr dl"
    by simp
  from ok have "\<not> locked s1 \<and> \<not> loading (inst s1) \<and> deadline (inst s1) = Some dl
      \<and> delta (inst s1) \<noteq> 0 \<and> (\<exists>img. last_image (inst s1) = Some img \<and> img \<noteq> [])"
  proof
    assume a: "evs = [Resp t (Response status hdrs), Body t (ReadOk body)]
               \<and> status < 400 \<and> status \<noteq> 304 \<and> body \<noteq> []"
    then have e: "run [Resp t (Response status hdrs), Body t (ReadOk body)] s0 = s1"
      by (simp only: s1_def)
    from a have st: "status < 400" "status \<noteq> 304" and b: "body \<noteq> []"
      by blast+
    from fetch_body_ok [OF tf(1,2) st range0, of hdrs body]
    have "\<not> locked s1 \<and> \<not> loading (inst s1) \<and> last_image (inst s1) = Some body
          \<and> deadline (inst s1) = Some dl
          \<and> delta (inst s1) = delta (inst s0)"
      unfolding Let_def e by blast
    with ttl tf(3) b show ?thesis
      by simp
  next
    assume a: "evs = [Resp t (Response 304 hdrs)] \<and> truthy_bytes (last_image (inst s))"
    then have e: "step (Resp t (Response 304 hdrs)) s0 = s1"
      by (simp only: s1_def run.simps)
    from a obtain img where img: "last_image (inst s) = Some img" "img \<noteq> []"
      by (auto simp: truthy_bytes_def split: option.splits)
    from fetch_not_modified [OF tf(1,2) range0, of hdrs]
    have "\<not> locked s1 \<and> \<not> loading (inst s1) \<and> last_image (inst s1) = last_image (inst s0)
          \<and> deadline (inst s1) = Some dl
          \<and> delta (inst s1) = delta (inst s0)"
      unfolding Let_def e by blast
    with ttl tf(3,4) img show ?thesis
      by simp
  qed
  then have free: "\<not> locked s1" "\<not> loading (inst s1)"
    and dl: "deadline (inst s1) = Some dl"
    and d: "delta (inst s1) \<noteq> 0"
    and img: "\<exists>img. last_image (inst s1) = Some img \<and> img \<noteq> []"
    by simp_all
  from img obtain img where img: "last_image (inst s1) = Some img" "img \<noteq> []"
    by blast
  have nr: "needs_refresh (inst s1) utcnow \<longleftrightarrow> utcnow > dl" for utcnow
    using d dl img by (rule fresh_until_deadline)
  have early: "step (Call t' utcnow now) s1 = set_pc t' (Done (Returned (last_image (inst s1)))) s1
       \<and> requests (step (Call t' utcnow now) s1) = requests s1"
    if "tasks s1 t' = NotStarted" "utcnow \<le> dl" for t' utcnow now
    using that nr [of utcnow] call_cached [of s1 utcnow t' now] by (simp add: set_pc_def)
  have late: "tasks (step (Call t' utcnow now) s1) t' = Fetching now
       \<and> requests (step (Call t' utcnow now) s1) = requests s1 @ [make_request (inst s1)]"
    if "tasks s1 t' = NotStarted" "utcnow > dl" for t' utcnow now
    using that nr [of utcnow] free call_fetches [of s1 utcnow t' now] by simp
  have run_eq: "run (Call t u T # evs) s = s1"
    by (simp only: s1_def s0_def run.simps)
  have val: "dl = T + delta (inst s) * 1000000"
    using range by (rule new_deadline_value)
  show ?thesis
    unfolding Let_def run_eq using val dl early late by blast
qed

theorem ttl_correctness_witness:
  "new_deadline 0 600 = Inr 600000000
   \<and> deadline (inst fresh_run) = Some 600000000
   \<and> tasks (step (Call 1 600000000 600000000) fresh_run) 1 = Done (Returned (Some [71, 73, 70]))
   \<and> requests (step (Call 1 600000000 600000000) fresh_run) = requests fresh_run
   \<and> tasks (step (Call 1 600000001 600000002) fresh_run) 1 = Fetching 600000002
   \<and> requests (step (Call 1 600000001 600000002) fresh_run)
       = requests fresh_run @ [make_request (inst fresh_run)]"
proof -
  define s where "s = init_sys (new_cam 700 600 ''NL'' 25)"
  define evs where
    "evs = [Resp 0 (Response 200 [(''Last-Modified'', ''A'')]), Body 0 (ReadOk [71, 73, 70])]"
  have idle: "\<not> locked s" "\<not> loading (inst s)" "tasks s 0 = NotStarted"
    and due: "needs_refresh (inst s) 0"
    and ttl: "delta (inst s) \<noteq> 0"
    and range: "new_deadline 0 (delta (inst s)) = Inr 600000000"
    by (simp_all add: s_def init_sys_def new_cam_def needs_refresh_def time_defs)
  have ok: "evs = [Resp 0 (Response 200 [(''Last-Modified'', ''A'')]), Body 0 (ReadOk [71, 73, 70])]
               \<and> (200::nat) < 400 \<and> (200::nat) \<noteq> 304 \<and> [71, 73, 70] \<noteq> ([]::nat list)
             \<or> evs = [Resp 0 (Response 304 [(''Last-Modified'', ''A'')])]
               \<and> truthy_bytes (last_image (inst s))"
    by (simp add: evs_def)
  have r: "run (Call 0 0 0 # evs) s = fresh_run"
    by (simp only: fresh_run_def s_def evs_def)
  note w = ttl_correctness [OF idle due ttl range ok, unfolded Let_def r]
  have ns: "tasks fresh_run 1 = NotStarted"
    and img: "last_image (inst fresh_run) = Some [71, 73, 70]"
    by (simp_all add: fresh_run_def eval_defs)
  from w have a: "deadline (inst fresh_run) = Some 600000000"
    by blast
  from w ns have "step (Call 1 600000000 600000000) fresh_run
        = set_pc 1 (Done (Returned (last_image (inst fresh_run)))) fresh_run
      \<and> requests (step (Call 1 600000000 600000000) fresh_run) = requests fresh_run"
    by (metis order_refl)
  then have b: "tasks (step (Call 1 600000000 600000000) fresh_run) 1
        = Done (Returned (Some [71, 73, 70]))
      \<and> requests (step (Call 1 600000000 600000000) fresh_run) = requests fresh_run"
    by (simp add: set_pc_def img del: step.simps)
  have "(600000000::int) < 600000001"
    by simp
  with w ns have c: "tasks (step (Call 1 600000001 600000002) fresh_run) 1 = Fetching 600000002
      \<and> requests (step (Call 1 600000001 600000002) fresh_run)
          = requests fresh_run @ [make_request (inst fresh_run)]"
    by blast
  from range have "new_deadline 0 600 = Inr 600000000"
    by (simp add: s_def init_sys_def new_cam_def)
  with a b c show ?thesis
    by blast
qed

subsection \<open>Conditional revalidation\<close>







subsection \<open>Failed fetches\<close>

text \<open>
  A timeout or client error of \<^verbatim>\<open>session.get\<close>, and a status of 400 and above,
  leave payload, token and deadline as they were; the call returns the cached payload.
\<close>

lemma early_failure_atomic:
  assumes "tasks s t = Fetching start" and "\<not> locked s"
    and "r = GetRaises TimeoutError \<or> r = GetRaises ClientError
         \<or> (\<exists>status hdrs. r = Response status hdrs \<and> status \<ge> 400)"
  shows "last_image (inst (step (Resp t r) s)) = last_image (inst s)
         \<and> last_modified (inst (step (Resp t r) s)) = last_modified (inst s)
         \<and> deadline (inst (step (Resp t r) s)) = deadline (inst s)
         \<and> tasks (step (Resp t r) s) t = Done (Returned (last_image (inst s)))"
  using assms by (auto simp: step_defs fetch_defs Let_def)

text \<open>
  A timeout or client error of \<^verbatim>\<open>res.read()\<close> is absorbed as well, and the instance
  is as it was when the read began: the token of line 151 is already stored.
\<close>

lemma read_failure_soft:
  assumes "tasks s t = Reading start" and "\<not> locked s"
    and "rr = ReadRaises TimeoutError \<or> rr = ReadRaises ClientError"
  shows "inst (step (Body t rr) s) = (inst s)\<lparr>loading := False\<rparr>
         \<and> tasks (step (Body t rr) s) t = Done (Returned (last_image (inst s)))"
  using assms by (auto simp: step_defs fetch_defs Let_def)

text \<open>
  Claim C3, at a failing input. The cache holds the token \<^verbatim>\<open>A\<close>; the response has
  status 200 and the token \<^verbatim>\<open>B\<close>; reading the body times out. The call returns the
  cached payload and raises nothing, payload and deadline are unchanged, and the token
  is now \<^verbatim>\<open>B\<close>.
\<close>

theorem failed_read_keeps_new_token:
  "last_modified example_cam = Some ''A''
   \<and> map req_headers (requests torn_run) = [[(''If-Modified-Since'', ''A'')]]
   \<and> tasks torn_run 0 = Done (Returned (Some [71, 73, 70]))
   \<and> last_image (inst torn_run) = last_image example_cam
   \<and> deadline (inst torn_run) = deadline example_cam
   \<and> last_modified (inst torn_run) = Some ''B''"
  by (simp add: torn_run_def example_cam_def eval_defs)

text \<open>
  Claim C8, at a failing input. The body of the first response is lost, its token is
  kept; the second request carries the token and is answered with status 304, which
  counts as a success and sets the deadline; the second and the third call return
  \<^verbatim>\<open>None\<close>.
\<close>

theorem none_after_successful_fetch:
  "map req_headers (requests none_run)
     = [[], [(''If-Modified-Since'', ''A'')], [(''If-Modified-Since'', ''A'')]]
   \<and> tasks none_run 0 = Done (Returned None)
   \<and> tasks none_run 1 = Done (Returned None)
   \<and> tasks none_run 2 = Done (Returned None)
   \<and> new_deadline 2 600 = Inr 600000002
   \<and> deadline (inst none_run) = Some 600000002
   \<and> last_image (inst none_run) = None"
  by (simp add: none_run_def eval_defs)

subsection \<open>The empty body\<close>

text \<open>
  Claim C10. When a fetch ends with status 200 and an empty body, the payload is the
  empty byte string and the call ends; the deadline is set whenever line 201 does not
  raise, and the call then returns the empty payload. From then on a refresh is needed
  at every clock value, and every later call sends a new request. A refresh is needed
  in every state with an empty payload, whatever the deadline.
\<close>

theorem empty_body_refetch:
  assumes "tasks s t = Fetching start" and "\<not> locked s" and "status < 400" and "status \<noteq> 304"
  shows "(let s' = run [Resp t (Response status hdrs), Body t (ReadOk [])] s
          in last_image (inst s') = Some []
             \<and> (\<exists>out. tasks s' t = Done out)
             \<and> (\<forall>dl. new_deadline start (delta (inst s)) = Inr dl \<longrightarrow>
                   deadline (inst s') = Some dl \<and> tasks s' t = Done (Returned (Some [])))
             \<and> (\<forall>utcnow. needs_refresh (inst s') utcnow)
             \<and> (\<forall>t' utcnow now. tasks s' t' = NotStarted \<longrightarrow>
                  tasks (step (Call t' utcnow now) s') t' = Fetching now
                  \<and> requests (step (Call t' utcnow now) s')
                      = requests s' @ [make_request (inst s')]))
         \<and> (\<forall>c utcnow. last_image c = Some [] \<longrightarrow> needs_refresh c utcnow)
         \<and> (\<forall>s2 t' utcnow now.
               last_image (inst s2) = Some [] \<and> \<not> locked s2 \<and> \<not> loading (inst s2)
               \<and> tasks s2 t' = NotStarted \<longrightarrow>
               requests (step (Call t' utcnow now) s2) = requests s2 @ [make_request (inst s2)])"
proof -
  define s1 where "s1 = step (Resp t (Response status hdrs)) s"
  define s' where "s' = step (Body t (ReadOk [])) s1"
  have s1: "tasks s1 t = Reading start" "\<not> locked s1" "delta (inst s1) = delta (inst s)"
    using assms
    by (cases "truthy_str (map_of hdrs ''Last-Modified'')";
        simp add: s1_def set_pc_def retrieve_on_response_def Let_def)+
  have s': "s' = finish t start (Returns True) (s1\<lparr>inst := (inst s1)\<lparr>last_image := Some []\<rparr>\<rparr>)"
    using s1(1) by (simp add: s'_def retrieve_on_body_def)
  have nl: "\<not> locked (s1\<lparr>inst := (inst s1)\<lparr>last_image := Some []\<rparr>\<rparr>)"
    using s1(2) by simp
  note fu = s' [unfolded finish_unlocked [OF nl]]
  have img: "last_image (inst s') = Some []"
    by (simp add: fu after_retrieve_def split: sum.splits)
  have fin: "\<exists>out. tasks s' t = Done out"
    by (simp add: fu)
  have free: "\<not> locked s'" "\<not> loading (inst s')"
    by (simp_all add: fu)
  have dl: "deadline (inst s') = Some dl \<and> tasks s' t = Done (Returned (Some []))"
    if "new_deadline start (delta (inst s)) = Inr dl" for dl
    using that s1(3) by (simp add: fu after_retrieve_def)
  have due: "needs_refresh (inst s') utcnow" for utcnow
    using img by (rule needs_refresh_empty)
  have nxt: "tasks (step (Call t' utcnow now) s') t' = Fetching now
        \<and> requests (step (Call t' utcnow now) s') = requests s' @ [make_request (inst s')]"
    if "tasks s' t' = NotStarted" for t' utcnow now
    using call_fetches [OF due free that, of utcnow now] by simp
  have run_eq: "run [Resp t (Response status hdrs), Body t (ReadOk [])] s = s'"
    by (simp only: run.simps s'_def s1_def)
  have first: "let s' = run [Resp t (Response status hdrs), Body t (ReadOk [])] s
          in last_image (inst s') = Some []
             \<and> (\<exists>out. tasks s' t = Done out)
             \<and> (\<forall>dl. new_deadline start (delta (inst s)) = Inr dl \<longrightarrow>
                   deadline (inst s') = Some dl \<and> tasks s' t = Done (Returned (Some [])))
             \<and> (\<forall>utcnow. needs_refresh (inst s') utcnow)
             \<and> (\<forall>t' utcnow now. tasks s' t' = NotStarted \<longrightarrow>
                  tasks (step (Call t' utcnow now) s') t' = Fetching now
                  \<and> requests (step (Call t' utcnow now) s')
                      = requests s' @ [make_request (inst s')])"
    unfolding Let_def run_eq using img fin dl due nxt by blast
  have always: "\<forall>c utcnow. last_image c = Some [] \<longrightarrow> needs_refresh c utcnow"
    by (simp add: needs_refresh_empty)
  have "requests (step (Call t' utcnow now) s2) = requests s2 @ [make_request (inst s2)]"
    if "last_image (inst s2) = Some []" "\<not> locked s2" "\<not> loading (inst s2)"
      "tasks s2 t' = NotStarted" for s2 t' utcnow now
    using call_fetches [OF needs_refresh_empty [OF that(1)] that(2,3,4), of utcnow now] by simp
  with first always show ?thesis
    by blast
qed

theorem empty_body_refetch_witness:
  "tasks (step (Call 0 0 0) (init_sys (new_cam 700 600 ''NL'' 25))) 0 = Fetching 0
   \<and> new_deadline 0 600 = Inr 600000000
   \<and> last_image (inst empty_run) = Some []
   \<and> tasks empty_run 0 = Done (Returned (Some []))
   \<and> deadline (inst empty_run) = Some 600000000
   \<and> needs_refresh (inst empty_run) 1
   \<and> tasks (step (Call 1 1 1) empty_run) 1 = Fetching 1
   \<and> length (requests (step (Call 1 1 1) empty_run)) = 2"
  using empty_body_refetch [of "step (Call 0 0 0) (init_sys (new_cam 700 600 ''NL'' 25))" 0 0 200 "[]"]
  by (simp add: empty_run_def eval_defs)

text \<open>
  With a time to live of a million million seconds the sum of line 201 is beyond
  \<^verbatim>\<open>datetime.max\<close>: the same fetch stores the empty payload, line 201 raises, no
  deadline is set and the exception leaves the call; the flag is down again and the next
  call fetches.
\<close>

lemma empty_body_overflow:
  "tasks huge_run 0 = Done (Raised OverflowError)
   \<and> last_image (inst huge_run) = Some []
   \<and> deadline (inst huge_run) = None
   \<and> \<not> loading (inst huge_run)
   \<and> tasks (step (Call 1 1 1) huge_run) 1 = Fetching 1"
  by (simp add: huge_run_def eval_defs)

subsection \<open>The in-flight flag\<close>

lemma wf_init: "\<not> loading c \<Longrightarrow> wf_sys (init_sys c)"
  by (simp add: wf_sys_def init_sys_def)

lemma wf_step: "wf_sys s \<Longrightarrow> wf_sys (step e s)"
proof (cases e)
  case (Call t utcnow now)
  assume wf: "wf_sys s"
  have other: "ta \<noteq> t" if "tasks s t = NotStarted" "fetching (tasks s ta)" for ta
    using that by auto
  from wf show ?thesis
    unfolding Call wf_sys_def
    by (cases "tasks s t"; cases "needs_refresh (inst s) utcnow"; cases "loading (inst s)")
      (auto simp: async_camera_image_def enter_def set_pc_def acquire_def release_def set_loading_def
        session_get_def Let_def dest: other)
next
  case (Resume t now)
  assume wf: "wf_sys s"
  then have nb: "\<not> blocked (tasks s t)"
    by (simp add: wf_sys_def)
  have other: "ta \<noteq> t" if "tasks s t = Notified" "fetching (tasks s ta)" for ta
    using that by auto
  from wf nb show ?thesis
    unfolding Resume wf_sys_def
    by (cases "tasks s t")
      (auto simp: wake_def set_pc_def acquire_def release_def dest: other)
next
  case (Resp t r)
  assume wf: "wf_sys s"
  show ?thesis
  proof (cases "tasks s t")
    case (Fetching now)
    with wf have nl: "\<not> locked s" and nb: "\<And>t'. \<not> blocked (tasks s t')"
      and ld: "loading (inst s)" and uniq: "\<And>t'. fetching (tasks s t') \<Longrightarrow> t' = t"
      unfolding wf_sys_def by (metis fetching.simps(1))+
    obtain c' o' where ro: "retrieve_on_response (inst s) r = (c', o')"
      by (cases "retrieve_on_response (inst s) r")
    show ?thesis
    proof (cases o')
      case None
      with ro resp_cases(1) have "loading c' = loading (inst s)"
        by blast
      with Fetching ro None ld nl nb show ?thesis
        unfolding Resp wf_sys_def
        by (auto simp: set_pc_def dest: uniq)
    next
      case (Some rv)
      with ro resp_cases(2) have "c' = inst s"
        by blast
      with Fetching ro Some ld nl nb show ?thesis
        unfolding Resp wf_sys_def
        by (auto simp: finish_unlocked dest: uniq)
    qed
  qed (use wf in \<open>simp_all add: Resp\<close>)
next
  case (Body t rr)
  assume wf: "wf_sys s"
  show ?thesis
  proof (cases "tasks s t")
    case (Reading now)
    with wf have nl: "\<not> locked s" and nb: "\<And>t'. \<not> blocked (tasks s t')"
      and ld: "loading (inst s)" and uniq: "\<And>t'. fetching (tasks s t') \<Longrightarrow> t' = t"
      unfolding wf_sys_def by (metis fetching.simps(2))+
    obtain c' rv where rb: "retrieve_on_body (inst s) rr = (c', rv)"
      by (cases "retrieve_on_body (inst s) rr")
    with Reading ld nl nb show ?thesis
      unfolding Body wf_sys_def
      by (auto simp: finish_unlocked dest: uniq)
  qed (use wf in \<open>simp_all add: Body\<close>)
qed

lemma wf_run: "wf_sys s \<Longrightarrow> wf_sys (run evs s)"
  by (induction evs arbitrary: s) (simp_all add: wf_step)

text \<open>
  Claim C9. Whatever the client delivers to a call that fetches (a body, status 304, an
  error status, a timeout, a client error or an unexpected exception), the call ends
  with the flag down and every waiter notified. In every state a new instance can
  reach, the lock is free and the flag is up exactly when some call is in the client.
\<close>

theorem in_flight_flag_reset:
  "(tasks s t = Fetching start \<and> \<not> locked s \<longrightarrow>
      (let s' = run (delivery t r rr) s
       in \<not> loading (inst s') \<and> (\<exists>out. tasks s' t = Done out)
          \<and> (\<forall>t'. tasks s t' = CondWait \<longrightarrow> tasks s' t' = Notified)))
   \<and> (\<not> loading c \<longrightarrow>
        (let s = run evs (init_sys c)
         in \<not> locked s \<and> (loading (inst s) \<longleftrightarrow> (\<exists>t. fetching (tasks s t)))))"
proof (intro conjI impI)
  assume a: "tasks s t = Fetching start \<and> \<not> locked s"
  then have "t' \<noteq> t" if "tasks s t' = CondWait" for t'
    using that by auto
  with settle [of s t start r rr] a
  show "let s' = run (delivery t r rr) s
       in \<not> loading (inst s') \<and> (\<exists>out. tasks s' t = Done out)
          \<and> (\<forall>t'. tasks s t' = CondWait \<longrightarrow> tasks s' t' = Notified)"
    unfolding Let_def by simp
next
  assume "\<not> loading c"
  then have "wf_sys (run evs (init_sys c))"
    by (intro wf_run wf_init)
  then show "let s = run evs (init_sys c)
         in \<not> locked s \<and> (loading (inst s) \<longleftrightarrow> (\<exists>t. fetching (tasks s t)))"
    by (simp add: wf_sys_def Let_def)
qed

theorem in_flight_flag_reset_witness:
  "tasks (run [Call 0 0 0, Call 1 0 0] (init_sys (new_cam 700 600 ''NL'' 25))) 0 = Fetching 0
   \<and> tasks (run [Call 0 0 0, Call 1 0 0] (init_sys (new_cam 700 600 ''NL'' 25))) 1 = CondWait
   \<and> loading (inst (run [Call 0 0 0, Call 1 0 0] (init_sys (new_cam 700 600 ''NL'' 25))))
   \<and> tasks crashed 0 = Done (Raised OtherError)
   \<and> tasks crashed 1 = Notified
   \<and> \<not> loading (inst crashed)
   \<and> \<not> locked crashed"
  using in_flight_flag_reset [where s = "run [Call 0 0 0, Call 1 0 0] (init_sys (new_cam 700 600 ''NL'' 25))"
      and t = 0 and start = 0 and r = "GetRaises OtherError" and rr = "ReadOk []"
      and c = "new_cam 700 600 ''NL'' 25"
      and evs = "[Call 0 0 0, Call 1 0 0, Resp 0 (GetRaises OtherError)]"]
  by (simp add: crashed_def delivery_def eval_defs)

subsection \<open>Single flight\<close>

lemma join_many:
  assumes "\<not> locked s" and "loading (inst s)" and "distinct (map fst ws)"
    and "\<forall>w \<in> set ws. tasks s (fst w) = NotStarted \<and> needs_refresh (inst s) (fst (snd w))"
  shows "inst (run (map call_of ws) s) = inst s
         \<and> \<not> locked (run (map call_of ws) s)
         \<and> requests (run (map call_of ws) s) = requests s
         \<and> (\<forall>t. tasks (run (map call_of ws) s) t
                = (if t \<in> fst ` set ws then CondWait else tasks s t))"
  using assms
proof (induction ws arbitrary: s)
  case Nil
  then show ?case by simp
next
  case (Cons w ws)
  obtain t utcnow now where w: "w = (t, utcnow, now)"
    by (cases w)
  define s' where "s' = step (Call t utcnow now) s"
  from Cons.prems w have s': "s' = s\<lparr>tasks := (tasks s)(t := CondWait),
      acquisitions := acquisitions s + 1\<rparr>"
    unfolding s'_def by (intro call_waits) simp_all
  have "inst (run (map call_of ws) s') = inst s'
         \<and> \<not> locked (run (map call_of ws) s')
         \<and> requests (run (map call_of ws) s') = requests s'
         \<and> (\<forall>t. tasks (run (map call_of ws) s') t
                = (if t \<in> fst ` set ws then CondWait else tasks s' t))"
    using Cons.prems w by (intro Cons.IH) (auto simp: s')
  moreover have "run (map call_of (w # ws)) s = run (map call_of ws) s'"
    by (simp add: w call_of_def s'_def)
  ultimately show ?case
    by (auto simp: s' w)
qed

lemma resume_many:
  assumes "\<not> locked s" and "distinct (map fst ws)"
    and "\<forall>w \<in> set ws. tasks s (fst w) = Notified"
  shows "inst (run (map resume_of ws) s) = inst s
         \<and> \<not> locked (run (map resume_of ws) s)
         \<and> requests (run (map resume_of ws) s) = requests s
         \<and> (\<forall>t. tasks (run (map resume_of ws) s) t
                = (if t \<in> fst ` set ws then Done (Returned (last_image (inst s))) else tasks s t))"
  using assms
proof (induction ws arbitrary: s)
  case Nil
  then show ?case by simp
next
  case (Cons w ws)
  obtain t utcnow now where w: "w = (t, utcnow, now)"
    by (cases w)
  define s' where "s' = step (Resume t now) s"
  from Cons.prems w have s': "s' = s\<lparr>tasks := (tasks s)(t := Done (Returned (last_image (inst s)))),
      acquisitions := acquisitions s + 1\<rparr>"
    unfolding s'_def by (simp add: wake_def set_pc_def acquire_def release_def)
  have "inst (run (map resume_of ws) s') = inst s'
         \<and> \<not> locked (run (map resume_of ws) s')
         \<and> requests (run (map resume_of ws) s') = requests s'
         \<and> (\<forall>t. tasks (run (map resume_of ws) s') t
                = (if t \<in> fst ` set ws then Done (Returned (last_image (inst s'))) else tasks s' t))"
    using Cons.prems w by (intro Cons.IH) (auto simp: s')
  moreover have "run (map resume_of (w # ws)) s = run (map resume_of ws) s'"
    by (simp add: w resume_of_def s'_def)
  ultimately show ?case
    by (auto simp: s' w)
qed

text \<open>A waiter leaves the condition only in a step that ends a call and lowers the flag.\<close>

lemma waiter_release:
  assumes "tasks s t = CondWait" and "tasks (step e s) t \<noteq> CondWait"
  shows "tasks (step e s) t = Notified \<and> \<not> loading (inst (step e s))
         \<and> (\<exists>t0 out. tasks (step e s) t0 = Done out
               \<and> (fetching (tasks s t0) \<or> blocked (tasks s t0)))"
proof (cases e)
  case (Call t' utcnow now)
  with assms show ?thesis
    by (cases "tasks s t'")
      (auto simp: async_camera_image_def enter_def set_pc_def acquire_def release_def set_loading_def
        session_get_def Let_def split: if_splits)
next
  case (Resume t' now)
  with assms show ?thesis
    by (cases "tasks s t'")
      (auto simp: enter_def wake_def finally_block_def set_pc_def acquire_def release_def
        set_loading_def session_get_def notify_all_def Let_def split: if_splits)
next
  case (Resp t' r)
  show ?thesis
  proof (cases "tasks s t'")
    case (Fetching now)
    obtain c' o' where ro: "retrieve_on_response (inst s) r = (c', o')"
      by (cases "retrieve_on_response (inst s) r")
    from assms Fetching ro show ?thesis
      unfolding Resp
      by (cases o')
        (auto simp: finish_eq finally_block_def set_pc_def acquire_def release_def
          set_loading_def notify_all_def split: if_splits)
  qed (use assms in \<open>simp_all add: Resp\<close>)
next
  case (Body t' rr)
  show ?thesis
  proof (cases "tasks s t'")
    case (Reading now)
    obtain c' rv where rb: "retrieve_on_body (inst s) rr = (c', rv)"
      by (cases "retrieve_on_body (inst s) rr")
    from assms Reading rb show ?thesis
      unfolding Body
      by (auto simp: finish_eq finally_block_def set_pc_def acquire_def release_def
          set_loading_def notify_all_def split: if_splits)
  qed (use assms in \<open>simp_all add: Body\<close>)
qed

lemma single_flight_scenario:
  assumes idle: "\<not> locked s" "\<not> loading (inst s)"
    and dist: "distinct (t0 # map fst ws)"
    and first: "tasks s t0 = NotStarted" "needs_refresh (inst s) utcnow"
    and rest: "\<forall>w \<in> set ws. tasks s (fst w) = NotStarted \<and> needs_refresh (inst s) (fst (snd w))"
  shows "let s1 = run (Call t0 utcnow now # map call_of ws) s;
             s2 = run (delivery t0 r rr) s1;
             s3 = run (map resume_of ws) s2
         in requests s1 = requests s @ [make_request (inst s)]
            \<and> tasks s1 t0 = Fetching now
            \<and> (\<forall>w \<in> set ws. tasks s1 (fst w) = CondWait)
            \<and> \<not> loading (inst s2)
            \<and> (\<exists>out. tasks s2 t0 = Done out)
            \<and> (\<forall>w \<in> set ws. tasks s2 (fst w) = Notified)
            \<and> (\<forall>w \<in> set ws. tasks s3 (fst w) = Done (Returned (last_image (inst s2))))
            \<and> requests s3 = requests s @ [make_request (inst s)]"
proof -
  define s0 where "s0 = step (Call t0 utcnow now) s"
  define s1 where "s1 = run (map call_of ws) s0"
  define s2 where "s2 = run (delivery t0 r rr) s1"
  define s3 where "s3 = run (map resume_of ws) s2"
  have s0: "s0 = s\<lparr>inst := (inst s)\<lparr>loading := True\<rparr>, tasks := (tasks s)(t0 := Fetching now),
       requests := requests s @ [make_request (inst s)], acquisitions := acquisitions s + 1\<rparr>"
    unfolding s0_def using first(2) idle first(1) by (rule call_fetches)
  have nr: "needs_refresh (inst s0) u = needs_refresh (inst s) u" for u
    by (simp add: s0 needs_refresh_def)
  have j: "inst s1 = inst s0 \<and> \<not> locked s1 \<and> requests s1 = requests s0
         \<and> (\<forall>t. tasks s1 t = (if t \<in> fst ` set ws then CondWait else tasks s0 t))"
    unfolding s1_def using idle dist rest
    by (intro join_many) (auto simp: s0)
  from dist have t0: "t0 \<notin> fst ` set ws"
    by auto
  with j have f1: "tasks s1 t0 = Fetching now" and l1: "\<not> locked s1"
    and r1: "requests s1 = requests s @ [make_request (inst s)]"
    and w1: "\<forall>w \<in> set ws. tasks s1 (fst w) = CondWait"
    by (simp_all add: s0)
  from settle [OF f1 l1, of r rr]
  have st: "\<not> locked s2 \<and> \<not> loading (inst s2) \<and> (\<exists>out. tasks s2 t0 = Done out)
      \<and> requests s2 = requests s1
      \<and> (\<forall>t'. t' \<noteq> t0 \<longrightarrow> tasks s2 t' = (if tasks s1 t' = CondWait then Notified else tasks s1 t'))"
    unfolding Let_def s2_def by blast
  with w1 t0 have w2: "\<forall>w \<in> set ws. tasks s2 (fst w) = Notified"
    by (metis imageI)
  from st dist w2
  have "inst (run (map resume_of ws) s2) = inst s2
         \<and> \<not> locked (run (map resume_of ws) s2)
         \<and> requests (run (map resume_of ws) s2) = requests s2
         \<and> (\<forall>t. tasks (run (map resume_of ws) s2) t
                = (if t \<in> fst ` set ws then Done (Returned (last_image (inst s2))) else tasks s2 t))"
    by (intro resume_many) simp_all
  then have r3: "requests s3 = requests s2"
    and w3: "\<forall>w \<in> set ws. tasks s3 (fst w) = Done (Returned (last_image (inst s2)))"
    by (simp_all add: s3_def)
  have run_eq: "run (Call t0 utcnow now # map call_of ws) s = s1"
    by (simp only: s1_def s0_def run.simps)
  show ?thesis
    unfolding Let_def run_eq s2_def [symmetric] s3_def [symmetric]
    using r1 f1 w1 st w2 w3 r3 by simp
qed

text \<open>
  Claim C1. Let a refresh be due and no fetch be in flight, and let \<open>1 + length ws\<close>
  distinct calls be made before the response. Then exactly one request is sent; the
  first call is in the client and all others wait on the condition, none has returned;
  whatever the client delivers, the fetch ends with the flag down and all waiters
  notified; each waiter then returns the payload the fetch left, and no further request
  is sent. Moreover a call made at any moment while the flag is up waits and sends
  nothing, and a waiter is released only by the step in which the fetching call ends.
\<close>

theorem single_flight:
  "(\<not> locked s \<and> \<not> loading (inst s) \<and> distinct (t0 # map fst ws)
      \<and> tasks s t0 = NotStarted \<and> needs_refresh (inst s) utcnow
      \<and> (\<forall>w \<in> set ws. tasks s (fst w) = NotStarted \<and> needs_refresh (inst s) (fst (snd w))) \<longrightarrow>
      (let s1 = run (Call t0 utcnow now # map call_of ws) s;
           s2 = run (delivery t0 r rr) s1;
           s3 = run (map resume_of ws) s2
       in requests s1 = requests s @ [make_request (inst s)]
          \<and> tasks s1 t0 = Fetching now
          \<and> (\<forall>w \<in> set ws. tasks s1 (fst w) = CondWait)
          \<and> \<not> loading (inst s2)
          \<and> (\<exists>out. tasks s2 t0 = Done out)
          \<and> (\<forall>w \<in> set ws. tasks s2 (fst w) = Notified)
          \<and> (\<forall>w \<in> set ws. tasks s3 (fst w) = Done (Returned (last_image (inst s2))))
          \<and> requests s3 = requests s @ [make_request (inst s)]))
   \<and> (\<not> locked s' \<and> loading (inst s') \<and> tasks s' t' = NotStarted
        \<and> needs_refresh (inst s') utcnow' \<longrightarrow>
        tasks (step (Call t' utcnow' now') s') t' = CondWait
        \<and> requests (step (Call t' utcnow' now') s') = requests s')
   \<and> (wf_sys s'' \<and> tasks s'' t'' = CondWait \<and> tasks (step e s'') t'' \<noteq> CondWait \<longrightarrow>
        tasks (step e s'') t'' = Notified \<and> \<not> loading (inst (step e s''))
        \<and> (\<exists>t0 out. fetching (tasks s'' t0) \<and> tasks (step e s'') t0 = Done out))"
proof (intro conjI impI)
  assume "\<not> locked s \<and> \<not> loading (inst s) \<and> distinct (t0 # map fst ws)
      \<and> tasks s t0 = NotStarted \<and> needs_refresh (inst s) utcnow
      \<and> (\<forall>w \<in> set ws. tasks s (fst w) = NotStarted \<and> needs_refresh (inst s) (fst (snd w)))"
  then show "let s1 = run (Call t0 utcnow now # map call_of ws) s;
           s2 = run (delivery t0 r rr) s1;
           s3 = run (map resume_of ws) s2
       in requests s1 = requests s @ [make_request (inst s)]
          \<and> tasks s1 t0 = Fetching now
          \<and> (\<forall>w \<in> set ws. tasks s1 (fst w) = CondWait)
          \<and> \<not> loading (inst s2)
          \<and> (\<exists>out. tasks s2 t0 = Done out)
          \<and> (\<forall>w \<in> set ws. tasks s2 (fst w) = Notified)
          \<and> (\<forall>w \<in> set ws. tasks s3 (fst w) = Done (Returned (last_image (inst s2))))
          \<and> requests s3 = requests s @ [make_request (inst s)]"
    by (intro single_flight_scenario) blast+
next
  assume a: "\<not> locked s' \<and> loading (inst s') \<and> tasks s' t' = NotStarted
        \<and> needs_refresh (inst s') utcnow'"
  then have "step (Call t' utcnow' now') s' =
     s'\<lparr>tasks := (tasks s')(t' := CondWait), acquisitions := acquisitions s' + 1\<rparr>"
    by (intro call_waits) blast+
  then show "tasks (step (Call t' utcnow' now') s') t' = CondWait"
    and "requests (step (Call t' utcnow' now') s') = requests s'"
    by simp_all
next
  assume a: "wf_sys s'' \<and> tasks s'' t'' = CondWait \<and> tasks (step e s'') t'' \<noteq> CondWait"
  then have rel: "tasks (step e s'') t'' = Notified \<and> \<not> loading (inst (step e s''))
         \<and> (\<exists>t0 out. tasks (step e s'') t0 = Done out
               \<and> (fetching (tasks s'' t0) \<or> blocked (tasks s'' t0)))"
    by (intro waiter_release) blast+
  then show "tasks (step e s'') t'' = Notified" and "\<not> loading (inst (step e s''))"
    by blast+
  from a have "\<not> blocked (tasks s'' t0)" for t0
    by (simp add: wf_sys_def)
  with rel show "\<exists>t0 out. fetching (tasks s'' t0) \<and> tasks (step e s'') t0 = Done out"
    by blast
qed

theorem single_flight_witness:
  "length (requests crowd_waiting) = 1
   \<and> tasks crowd_waiting 0 = Fetching 0
   \<and> tasks crowd_waiting 1 = CondWait \<and> tasks crowd_waiting 2 = CondWait
   \<and> tasks crowd_settled 0 = Done (Returned (Some [71, 73, 70]))
   \<and> tasks crowd_settled 1 = Notified \<and> tasks crowd_settled 2 = Notified
   \<and> \<not> loading (inst crowd_settled)
   \<and> tasks crowd_done 1 = Done (Returned (Some [71, 73, 70]))
   \<and> tasks crowd_done 2 = Done (Returned (Some [71, 73, 70]))
   \<and> length (requests crowd_done) = 1
   \<and> tasks (step (Call 3 9 9) crowd_waiting) 3 = CondWait
   \<and> requests (step (Call 3 9 9) crowd_waiting) = requests crowd_waiting
   \<and> tasks (step (Resp 0 (GetRaises TimeoutError)) crowd_waiting) 1 = Notified"
proof -
  have wf: "wf_sys crowd_waiting"
    unfolding crowd_waiting_def by (intro wf_run wf_init) (simp add: new_cam_def)
  have ev: "tasks crowd_waiting 1 = CondWait"
    "tasks (step (Resp 0 (GetRaises TimeoutError)) crowd_waiting) 1 \<noteq> CondWait"
    "\<not> locked crowd_waiting" "loading (inst crowd_waiting)"
    "tasks crowd_waiting 3 = NotStarted" "needs_refresh (inst crowd_waiting) 9"
    by (simp_all add: crowd_waiting_def crowd_def call_of_def eval_defs)
  from wf ev single_flight [where s = "init_sys (new_cam 700 600 ''NL'' 25)" and ?t0.0 = 0
      and ws = crowd and utcnow = 0 and now = 0
      and r = "Response 200 [(''Last-Modified'', ''A'')]" and rr = "ReadOk [71, 73, 70]"
      and s' = crowd_waiting and t' = 3 and utcnow' = 9 and now' = 9
      and s'' = crowd_waiting and t'' = 1 and e = "Resp 0 (GetRaises TimeoutError)"]
  have "tasks (step (Call 3 9 9) crowd_waiting) 3 = CondWait
      \<and> requests (step (Call 3 9 9) crowd_waiting) = requests crowd_waiting
      \<and> tasks (step (Resp 0 (GetRaises TimeoutError)) crowd_waiting) 1 = Notified"
    by blast
  then show ?thesis
    by (simp add: crowd_done_def crowd_settled_def crowd_waiting_def crowd_def call_of_def
        resume_of_def delivery_def eval_defs)
qed

end
